theory Spec2Isabelle
  imports Main
begin

section \<open>Values, errors and external collaborators\<close>

text \<open>
  The plugin \<^verbatim>\<open>fromFilePath.py\<close> works on Python dictionaries of field values, on a
  \<^verbatim>\<open>pathlib.Path\<close>, on library items of the host and on a \<^verbatim>\<open>mediafile.MediaFile\<close>.
  Field values are strings, integers, dates or \<^verbatim>\<open>None\<close>. A Python string is a list of
  code points; here a character is one code point of the Latin-1 range, which is what
  \<^typ>\<open>char\<close> holds.
\<close>

datatype pydate = Date (year: nat) (month: nat) (day: nat)

definition date_min :: pydate where
  \<comment> \<open>\<^verbatim>\<open>datetime.date.min\<close>\<close>
  "date_min = Date 1 1 1"

datatype val = VNone | VStr string | VInt int | VDate pydate

datatype error = KeyError string | ValueError string | TypeError

fun truthy :: "val \<Rightarrow> bool" where
  \<comment> \<open>Python's truth value: \<^verbatim>\<open>None\<close>, \<^verbatim>\<open>""\<close> and \<^verbatim>\<open>0\<close> are false, a date is always true.\<close>
  "truthy VNone = False"
| "truthy (VStr s) = (s \<noteq> [])"
| "truthy (VInt i) = (i \<noteq> 0)"
| "truthy (VDate d) = True"

type_synonym fields = "string \<rightharpoonup> val"
type_synonym guessed = "string \<rightharpoonup> string"

definition getitem :: "fields \<Rightarrow> string \<Rightarrow> error + val" where
  \<comment> \<open>\<^verbatim>\<open>d[key]\<close> raises \<^verbatim>\<open>KeyError\<close> on a missing key.\<close>
  "getitem d key = (case d key of None \<Rightarrow> Inl (KeyError key) | Some v \<Rightarrow> Inr v)"

text \<open>
  \<^verbatim>\<open>path.stem\<close> and \<^verbatim>\<open>path.parent.name\<close> are computed by \<^verbatim>\<open>pathlib\<close>; the plugin only
  reads them, so a path is the record of these two attributes.
\<close>

record path =
  stem :: string
  parent_name :: string

subsection \<open>Character classes of the regular expressions\<close>

definition is_digit :: "char \<Rightarrow> bool" where
  \<comment> \<open>\<^verbatim>\<open>\d\<close>: the decimal digits (in Latin-1 these are \<^verbatim>\<open>0\<close> to \<^verbatim>\<open>9\<close>)\<close>
  "is_digit c = (c \<in> set ''0123456789'')"

definition is_sep :: "char \<Rightarrow> bool" where
  \<comment> \<open>\<^verbatim>\<open>[\.\-_:]\<close>\<close>
  "is_sep c = (c \<in> set ''.-_:'')"

definition is_space :: "char \<Rightarrow> bool" where
  \<comment> \<open>\<^verbatim>\<open>\s\<close> of a \<^verbatim>\<open>str\<close> pattern: the code points for which \<^verbatim>\<open>str.isspace\<close> holds\<close>
  "is_space c = (c \<in> set [CHR 0x09, CHR 0x0A, CHR 0x0B, CHR 0x0C, CHR 0x0D,
                            CHR 0x1C, CHR 0x1D, CHR 0x1E, CHR 0x1F, CHR 0x20,
                            CHR 0x85, CHR 0xA0])"

definition is_dot :: "char \<Rightarrow> bool" where
  \<comment> \<open>\<^verbatim>\<open>.\<close> without \<^verbatim>\<open>DOTALL\<close>: anything but a newline\<close>
  "is_dot c = (c \<noteq> CHR 0x0A)"

datatype cclass = Digit | Sep | Space | Dot

fun in_class :: "cclass \<Rightarrow> char \<Rightarrow> bool" where
  "in_class Digit c = is_digit c"
| "in_class Sep c = is_sep c"
| "in_class Space c = is_space c"
| "in_class Dot c = is_dot c"

subsection \<open>Matching a pattern at the start of a string\<close>

text \<open>
  The patterns of \<^verbatim>\<open>_PATTERNS\<close> are sequences of \<^verbatim>\<open>^\<close>, \<^verbatim>\<open>$\<close>, a greedy \<^verbatim>\<open>c+\<close> of a
  character class, and a named group \<^verbatim>\<open>(?P<name>c+)\<close>. \<^verbatim>\<open>re.match\<close> matches at the start
  of the string and backtracks: a greedy repetition first takes the longest run and
  gives characters back one at a time while the rest of the pattern fails.
\<close>

datatype piece = Bol | Eol | Rep cclass | Group string cclass

type_synonym pattern = "piece list"
type_synonym groupdict = "(string \<times> string) list"

fun backtrack :: "(nat \<Rightarrow> 'a option) \<Rightarrow> nat \<Rightarrow> 'a option" where
  \<comment> \<open>try the continuation on \<open>n\<close>, \<open>n - 1\<close>, ..., \<open>1\<close> repetitions\<close>
  "backtrack k 0 = None"
| "backtrack k (Suc n) = (case k (Suc n) of Some r \<Rightarrow> Some r | None \<Rightarrow> backtrack k n)"

definition run :: "cclass \<Rightarrow> string \<Rightarrow> nat" where
  \<comment> \<open>the length of the longest prefix in the class\<close>
  "run c s = length (takeWhile (in_class c) s)"

primrec re_go :: "pattern \<Rightarrow> nat \<Rightarrow> string \<Rightarrow> groupdict option" where
  \<comment> \<open>\<open>re_go ps pos s\<close>: match \<open>ps\<close> against the rest \<open>s\<close> of the subject at offset \<open>pos\<close>\<close>
  "re_go [] = (\<lambda>pos s. Some [])"
| "re_go (p # ps) = (\<lambda>pos s.
     case p of
       Bol \<Rightarrow> if pos = 0 then re_go ps pos s else None
     | Eol \<Rightarrow> if s = [] \<or> s = [CHR 0x0A] then re_go ps pos s else None
     | Rep c \<Rightarrow> backtrack (\<lambda>n. re_go ps (pos + n) (drop n s)) (run c s)
     | Group name c \<Rightarrow>
         backtrack (\<lambda>n. map_option (\<lambda>groups. (name, take n s) # groups)
                              (re_go ps (pos + n) (drop n s))) (run c s))"

definition re_match :: "pattern \<Rightarrow> string \<Rightarrow> groupdict option" where
  \<comment> \<open>\<^verbatim>\<open>re.match(pattern, s)\<close>, with the named groups of the match in pattern order\<close>
  "re_match pattern s = re_go pattern 0 s"

subsection \<open>Converting a guessed string to an integer\<close>

definition digit_val :: "char \<Rightarrow> int" where
  "digit_val c = int (of_char c) - 48"

definition py_int :: "string \<Rightarrow> error + int" where
  \<comment> \<open>\<^verbatim>\<open>int(s)\<close> on a run of decimal digits, the only strings a digit group captures;
      any other string is reported as the conversion error \<^verbatim>\<open>ValueError\<close>\<close>
  "py_int s = (if s \<noteq> [] \<and> list_all is_digit s
               then Inr (foldl (\<lambda>acc c. 10 * acc + digit_val c) 0 s)
               else Inl (ValueError s))"

section \<open>The plugin\<close>

subsection \<open>Module-level tables and state\<close>

definition NULL_TRACK_FIELDS :: "(string \<times> val) list" where
  "NULL_TRACK_FIELDS =
     [(''title'', VStr ''<Unknown Track>''), (''track_num'', VInt (- 1)), (''disc'', VInt 1)]"

definition NULL_ALBUM_FIELDS :: "(string \<times> val) list" where
  "NULL_ALBUM_FIELDS =
     [(''title'', VStr ''Unknown Album''), (''artist'', VStr ''Unknown Artist''),
      (''date'', VDate date_min), (''disc_total'', VInt 1)]"

record state =
  null_track_num_count :: int
  last_added_album :: val

definition init_state :: state where
  "init_state = \<lparr>null_track_num_count = 0, last_added_album = VStr []\<rparr>"

definition GUESS_TAGS :: bool where
  "GUESS_TAGS = True"

definition PATTERNS :: "pattern list" where
  "PATTERNS =
     [[Bol, Group ''disc'' Digit, Rep Sep, Group ''track_num'' Digit, Rep Space,
       Group ''title'' Dot, Eol],
      [Bol, Group ''track_num'' Digit, Rep Space, Group ''title'' Dot, Eol]]"

subsection \<open>\<^verbatim>\<open>guess_fields\<close>\<close>

fun first_match :: "pattern list \<Rightarrow> string \<Rightarrow> guessed \<Rightarrow> guessed" where
  \<comment> \<open>the \<^verbatim>\<open>for pattern in _PATTERNS\<close> loop with its \<^verbatim>\<open>break\<close>\<close>
  "first_match [] filename flds = flds"
| "first_match (pattern # rest) filename flds =
     (case re_match pattern filename of
        Some matchDict \<Rightarrow> fold (\<lambda>(i, g) f. f(i \<mapsto> g)) matchDict flds
      | None \<Rightarrow> first_match rest filename flds)"

definition guess_fields :: "path \<Rightarrow> guessed" where
  "guess_fields p =
     (let filename = stem p;
          flds = [''title'' \<mapsto> filename, ''album_title'' \<mapsto> parent_name p]
      in first_match PATTERNS filename flds)"

subsection \<open>\<^verbatim>\<open>read_custom_tags\<close>\<close>

definition fixup_track_key :: "guessed \<Rightarrow> string \<times> val \<Rightarrow> fields \<Rightarrow> error + fields" where
  \<comment> \<open>the body of \<^verbatim>\<open>for key in _NULL_TRACK_FIELDS\<close>\<close>
  "fixup_track_key guessed_fields kv track_fields =
     (case kv of (key, null) \<Rightarrow>
        (case getitem track_fields key of
           Inl e \<Rightarrow> Inl e
         | Inr v \<Rightarrow>
             if \<not> truthy v then
               (if GUESS_TAGS \<and> key \<in> dom guessed_fields then
                  (case null of
                     VInt _ \<Rightarrow>
                       (case py_int (the (guessed_fields key)) of
                          Inl e \<Rightarrow> Inl e
                        | Inr i \<Rightarrow> Inr (track_fields(key \<mapsto> VInt i)))
                   | _ \<Rightarrow> Inr (track_fields(key \<mapsto> VStr (the (guessed_fields key)))))
                else Inr (track_fields(key \<mapsto> null)))
             else Inr track_fields))"

definition fixup_album_key :: "guessed \<Rightarrow> string \<times> val \<Rightarrow> fields \<Rightarrow> error + fields" where
  \<comment> \<open>the body of \<^verbatim>\<open>for key in _NULL_ALBUM_FIELDS\<close>\<close>
  "fixup_album_key guessed_fields kv album_fields =
     (case kv of (key, null) \<Rightarrow>
        (case getitem album_fields key of
           Inl e \<Rightarrow> Inl e
         | Inr v \<Rightarrow>
             if \<not> truthy v then
               (let guessed_key = ''album_'' @ key in
                if GUESS_TAGS \<and> guessed_key \<in> dom guessed_fields
                then Inr (album_fields(key \<mapsto> VStr (the (guessed_fields guessed_key))))
                else Inr (album_fields(key \<mapsto> null)))
             else Inr album_fields))"

fun for_keys :: "('k \<Rightarrow> 'd \<Rightarrow> error + 'd) \<Rightarrow> 'k list \<Rightarrow> 'd \<Rightarrow> error + 'd" where
  \<comment> \<open>a \<^verbatim>\<open>for\<close> loop over the keys of a table that stops at the first exception\<close>
  "for_keys body [] d = Inr d"
| "for_keys body (k # ks) d =
     (case body k d of Inl e \<Rightarrow> Inl e | Inr d' \<Rightarrow> for_keys body ks d')"

definition reconcile :: "path \<Rightarrow> fields \<Rightarrow> fields \<Rightarrow> error + (fields \<times> fields)" where
  \<comment> \<open>lines 81 to 105: the two fix-up passes; the result is the album and the track field set\<close>
  "reconcile track_path album_fields track_fields =
     (let guessed_fields = (if GUESS_TAGS then guess_fields track_path else Map.empty) in
      case for_keys (fixup_track_key guessed_fields) NULL_TRACK_FIELDS track_fields of
        Inl e \<Rightarrow> Inl e
      | Inr track_fields' \<Rightarrow>
          (case for_keys (fixup_album_key guessed_fields) NULL_ALBUM_FIELDS album_fields of
             Inl e \<Rightarrow> Inl e
           | Inr album_fields' \<Rightarrow> Inr (album_fields', track_fields')))"

definition disambiguate :: "fields \<Rightarrow> fields \<Rightarrow> state \<Rightarrow> error + (fields \<times> fields \<times> state)" where
  \<comment> \<open>lines 107 to 117: the sequential negative track numbers\<close>
  "disambiguate album_fields track_fields st =
     (case getitem track_fields ''track_num'' of
        Inl e \<Rightarrow> Inl e
      | Inr tn \<Rightarrow>
          if tn = the (map_of NULL_TRACK_FIELDS ''track_num'') then
            (case getitem album_fields ''title'' of
               Inl e \<Rightarrow> Inl e
             | Inr title \<Rightarrow>
                 (let st' = (if last_added_album st \<noteq> title
                             then st\<lparr>null_track_num_count := 1, last_added_album := title\<rparr>
                             else st\<lparr>null_track_num_count := null_track_num_count st + 1\<rparr>)
                  in Inr (album_fields,
                          track_fields(''track_num'' \<mapsto> VInt (- null_track_num_count st')),
                          st')))
          else Inr (album_fields, track_fields, st))"

definition read_custom_tags ::
  "path \<Rightarrow> fields \<Rightarrow> fields \<Rightarrow> state \<Rightarrow> error + (fields \<times> fields \<times> state)" where
  "read_custom_tags track_path album_fields track_fields st =
     (case reconcile track_path album_fields track_fields of
        Inl e \<Rightarrow> Inl e
      | Inr (album_fields', track_fields') \<Rightarrow> disambiguate album_fields' track_fields' st)"

text \<open>
  The host calls the read hook once per track file, one call after the other. A call is
  the path with the album and the track field set the tag reader produced for it.
\<close>

type_synonym call = "path \<times> fields \<times> fields"

fun read_serially :: "call list \<Rightarrow> state \<Rightarrow> error + ((fields \<times> fields) list \<times> state)" where
  "read_serially [] st = Inr ([], st)"
| "read_serially ((track_path, album_fields, track_fields) # rest) st =
     (case read_custom_tags track_path album_fields track_fields st of
        Inl e \<Rightarrow> Inl e
      | Inr (album_fields', track_fields', st') \<Rightarrow>
          (case read_serially rest st' of
             Inl e \<Rightarrow> Inl e
           | Inr (outs, st'') \<Rightarrow> Inr ((album_fields', track_fields') # outs, st'')))"

definition reconciled :: "call \<Rightarrow> (val \<times> val) option" where
  \<comment> \<open>the album title and the track number of a call after the two fix-up passes\<close>
  "reconciled c =
     (case c of (track_path, album_fields, track_fields) \<Rightarrow>
        (case reconcile track_path album_fields track_fields of
           Inl e \<Rightarrow> None
         | Inr (album_fields', track_fields') \<Rightarrow>
             (case (album_fields' ''title'', track_fields' ''track_num'') of
                (Some title, Some tn) \<Rightarrow> Some (title, tn)
              | _ \<Rightarrow> None)))"

definition count_for :: "val \<Rightarrow> state \<Rightarrow> int" where
  \<comment> \<open>how many placeholder numbers the state has handed out for this album title\<close>
  "count_for album st = (if last_added_album st = album then null_track_num_count st else 0)"

subsection \<open>\<^verbatim>\<open>process_new_items\<close> and \<^verbatim>\<open>process_changed_items\<close>\<close>

text \<open>
  A library item is a track or something else (an album, an extra). A track has its
  \<^verbatim>\<open>track_num\<close>, its \<^verbatim>\<open>path\<close> and further attributes, the extension of the record. The
  hooks receive a list of references to items and mutate the items in place, so the
  items live in a store from references to items and the list may name an item twice.
\<close>

record track_item =
  track_num :: int
  path :: string

datatype ('t, 'o) lib_item = Track "'t track_item_scheme" | Other 'o

type_synonym ('t, 'o) store = "nat \<Rightarrow> ('t, 'o) lib_item"

fun process_new_items :: "nat list \<Rightarrow> ('t, 'o) store \<Rightarrow> ('t, 'o) store" where
  "process_new_items [] h = h"
| "process_new_items (item # items) h =
     process_new_items items
       (case h item of
          Track t \<Rightarrow> if track_num t < 0 then h(item := Track (t\<lparr>track_num := 0\<rparr>)) else h
        | Other x \<Rightarrow> h)"

fun process_changed_items :: "nat list \<Rightarrow> ('t, 'o) store \<Rightarrow> ('t, 'o) store" where
  "process_changed_items [] h = h"
| "process_changed_items (item # items) h =
     process_changed_items items
       (case h item of
          Track t \<Rightarrow> if track_num t < 0 then h(item := Track (t\<lparr>track_num := 0\<rparr>)) else h
        | Other x \<Rightarrow> h)"

subsection \<open>\<^verbatim>\<open>write_custom_tags\<close>\<close>

text \<open>
  \<^verbatim>\<open>mediafile.MediaFile\<close> gives the tags of a file as attributes: \<^verbatim>\<open>track\<close> is an integer
  or \<^verbatim>\<open>None\<close> when the file has no track tag, \<^verbatim>\<open>date\<close> a date or \<^verbatim>\<open>None\<close>; the other tags
  are the extension of the record. \<^verbatim>\<open>update\<close> with the value \<^verbatim>\<open>None\<close> for a tag deletes the
  tag, and the hook passes no other value. The files are a function from paths to tags.
\<close>

record media_file =
  track :: "int option"
  date :: "pydate option"

definition update :: "'a media_file_scheme \<Rightarrow> fields \<Rightarrow> 'a media_file_scheme" where
  "update audio_file d =
     audio_file\<lparr>track := (if d ''track'' = Some VNone then None else track audio_file),
                date := (if d ''date'' = Some VNone then None else date audio_file)\<rparr>"

fun le_zero :: "int option \<Rightarrow> error + bool" where
  \<comment> \<open>\<^verbatim>\<open>x <= 0\<close>: comparing \<^verbatim>\<open>None\<close> with an integer raises \<^verbatim>\<open>TypeError\<close>\<close>
  "le_zero None = Inl TypeError"
| "le_zero (Some i) = Inr (i \<le> 0)"

definition null_tags :: "'t track_item_scheme \<Rightarrow> 'a media_file_scheme \<Rightarrow> error + fields" where
  \<comment> \<open>lines 152 to 163: the dictionary \<^verbatim>\<open>nullTags\<close>; \<^verbatim>\<open>or\<close> evaluates its right operand only
      when the left one is false\<close>
  "null_tags t audio_file =
     (case (if track_num t \<le> 0 then Inr True else le_zero (track audio_file)) of
        Inl e \<Rightarrow> Inl e
      | Inr delete_track \<Rightarrow>
          (let nullTags = Map.empty;
               nullTags = (if delete_track then nullTags(''track'' \<mapsto> VNone) else nullTags);
               nullTags = (if date audio_file = Some date_min
                           then nullTags(''date'' \<mapsto> VNone) else nullTags)
           in Inr nullTags))"

definition write_custom_tags ::
  "'t track_item_scheme \<Rightarrow> (string \<Rightarrow> 'a media_file_scheme) \<Rightarrow>
     error + (string \<Rightarrow> 'a media_file_scheme)" where
  "write_custom_tags t files =
     (let audio_file = files (path t) in
      case null_tags t audio_file of
        Inl e \<Rightarrow> Inl e
      | Inr nullTags \<Rightarrow> Inr (files(path t := update audio_file nullTags)))"

section \<open>What a match of the patterns says about the file name\<close>

lemma backtrack_SomeD:
  "backtrack k n = Some r \<Longrightarrow> \<exists>m. 0 < m \<and> m \<le> n \<and> k m = Some r"
proof (induction n)
  case 0
  then show ?case by simp
next
  case (Suc n)
  show ?case
  proof (cases "k (Suc n)")
    case None
    with Suc obtain m where "0 < m" "m \<le> n" "k m = Some r" by auto
    then show ?thesis by (intro exI[of _ m]) simp
  next
    case (Some a)
    with Suc.prems have "k (Suc n) = Some r" by simp
    then show ?thesis by (intro exI[of _ "Suc n"]) simp
  qed
qed

lemma take_append_short: "m \<le> length xs \<Longrightarrow> take m (xs @ ys) = take m xs"
  by simp

lemma run_chunk:
  assumes "0 < m" and "m \<le> run c s"
  shows "s = take m s @ drop m s \<and> take m s \<noteq> [] \<and> list_all (in_class c) (take m s)"
proof -
  have len: "m \<le> length (takeWhile (in_class c) s)"
    using assms by (simp add: run_def)
  have "length (takeWhile (in_class c) s) \<le> length s"
    by (rule length_takeWhile_le)
  with len have ms: "m \<le> length s" by linarith
  have eq: "take m s = take m (takeWhile (in_class c) s)"
    using take_append_short[OF len, of "dropWhile (in_class c) s"] by simp
  have "\<forall>x\<in>set (take m (takeWhile (in_class c) s)). in_class c x"
    by (meson in_set_takeD set_takeWhileD)
  with eq have all: "list_all (in_class c) (take m s)"
    by (simp add: list_all_iff)
  from assms(1) ms have "take m s \<noteq> []" by (cases s) auto
  with all show ?thesis by simp
qed

lemma re_go_BolD:
  "re_go (Bol # ps) pos s = Some g \<Longrightarrow> pos = 0 \<and> re_go ps pos s = Some g"
  by (simp split: if_splits)

lemma re_go_EolD:
  "re_go (Eol # ps) pos s = Some g \<Longrightarrow> (s = [] \<or> s = [CHR 0x0A]) \<and> re_go ps pos s = Some g"
  by (simp split: if_splits)

lemma re_go_RepD:
  "re_go (Rep c # ps) pos s = Some g \<Longrightarrow>
     \<exists>m. 0 < m \<and> m \<le> run c s \<and> re_go ps (pos + m) (drop m s) = Some g"
  by (auto dest!: backtrack_SomeD)

lemma re_go_GroupD:
  "re_go (Group nm c # ps) pos s = Some g \<Longrightarrow>
     \<exists>m g'. 0 < m \<and> m \<le> run c s \<and> re_go ps (pos + m) (drop m s) = Some g' \<and>
            g = (nm, take m s) # g'"
  by (auto dest!: backtrack_SomeD)

lemma in_class_eqs:
  "in_class Digit = is_digit" "in_class Sep = is_sep"
  "in_class Space = is_space" "in_class Dot = is_dot"
  by (rule ext, simp)+

lemma re_match_pattern1D:
  assumes "re_match (PATTERNS ! 0) s = Some groups"
  shows "\<exists>d sp n ws t e.
           s = d @ sp @ n @ ws @ t @ e \<and>
           groups = [(''disc'', d), (''track_num'', n), (''title'', t)] \<and>
           d \<noteq> [] \<and> list_all is_digit d \<and> sp \<noteq> [] \<and> list_all is_sep sp \<and>
           n \<noteq> [] \<and> list_all is_digit n \<and> ws \<noteq> [] \<and> list_all is_space ws \<and>
           t \<noteq> [] \<and> list_all is_dot t \<and> (e = [] \<or> e = [CHR 0x0A])"
proof -
  from assms have 0:
    "re_go [Bol, Group ''disc'' Digit, Rep Sep, Group ''track_num'' Digit, Rep Space,
            Group ''title'' Dot, Eol] 0 s = Some groups"
    by (simp only: re_match_def PATTERNS_def nth_Cons_0)
  note 1 = re_go_BolD[OF 0, THEN conjunct2]
  from re_go_GroupD[OF 1] obtain m1 g1 where
    m1: "0 < m1" "m1 \<le> run Digit s" and
    r1: "re_go [Rep Sep, Group ''track_num'' Digit, Rep Space, Group ''title'' Dot, Eol]
           (0 + m1) (drop m1 s) = Some g1" and
    g: "groups = (''disc'', take m1 s) # g1"
    by blast
  from re_go_RepD[OF r1] obtain m2 where
    m2: "0 < m2" "m2 \<le> run Sep (drop m1 s)" and
    r2: "re_go [Group ''track_num'' Digit, Rep Space, Group ''title'' Dot, Eol]
           (0 + m1 + m2) (drop m2 (drop m1 s)) = Some g1"
    by blast
  from re_go_GroupD[OF r2] obtain m3 g3 where
    m3: "0 < m3" "m3 \<le> run Digit (drop m2 (drop m1 s))" and
    r3: "re_go [Rep Space, Group ''title'' Dot, Eol]
           (0 + m1 + m2 + m3) (drop m3 (drop m2 (drop m1 s))) = Some g3" and
    g1: "g1 = (''track_num'', take m3 (drop m2 (drop m1 s))) # g3"
    by blast
  from re_go_RepD[OF r3] obtain m4 where
    m4: "0 < m4" "m4 \<le> run Space (drop m3 (drop m2 (drop m1 s)))" and
    r4: "re_go [Group ''title'' Dot, Eol]
           (0 + m1 + m2 + m3 + m4) (drop m4 (drop m3 (drop m2 (drop m1 s)))) = Some g3"
    by blast
  from re_go_GroupD[OF r4] obtain m5 g5 where
    m5: "0 < m5" "m5 \<le> run Dot (drop m4 (drop m3 (drop m2 (drop m1 s))))" and
    r5: "re_go [Eol] (0 + m1 + m2 + m3 + m4 + m5)
           (drop m5 (drop m4 (drop m3 (drop m2 (drop m1 s))))) = Some g5" and
    g3: "g3 = (''title'', take m5 (drop m4 (drop m3 (drop m2 (drop m1 s))))) # g5"
    by blast
  from re_go_EolD[OF r5] have
    e: "drop m5 (drop m4 (drop m3 (drop m2 (drop m1 s)))) = [] \<or>
        drop m5 (drop m4 (drop m3 (drop m2 (drop m1 s)))) = [CHR 0x0A]" and
    g5: "g5 = []"
    by simp_all
  from run_chunk[OF m1] have c1: "take m1 s \<noteq> []" "list_all is_digit (take m1 s)"
    by (simp_all add: in_class_eqs)
  from run_chunk[OF m2] have c2:
    "take m2 (drop m1 s) \<noteq> []" "list_all is_sep (take m2 (drop m1 s))"
    by (simp_all add: in_class_eqs)
  from run_chunk[OF m3] have c3:
    "take m3 (drop m2 (drop m1 s)) \<noteq> []"
    "list_all is_digit (take m3 (drop m2 (drop m1 s)))"
    by (simp_all add: in_class_eqs)
  from run_chunk[OF m4] have c4:
    "take m4 (drop m3 (drop m2 (drop m1 s))) \<noteq> []"
    "list_all is_space (take m4 (drop m3 (drop m2 (drop m1 s))))"
    by (simp_all add: in_class_eqs)
  from run_chunk[OF m5] have c5:
    "take m5 (drop m4 (drop m3 (drop m2 (drop m1 s)))) \<noteq> []"
    "list_all is_dot (take m5 (drop m4 (drop m3 (drop m2 (drop m1 s)))))"
    by (simp_all add: in_class_eqs)
  have split: "s = take m1 s @ take m2 (drop m1 s) @ take m3 (drop m2 (drop m1 s)) @
          take m4 (drop m3 (drop m2 (drop m1 s))) @
          take m5 (drop m4 (drop m3 (drop m2 (drop m1 s)))) @
          drop m5 (drop m4 (drop m3 (drop m2 (drop m1 s))))"
    by (simp only: append_take_drop_id)
  have gs: "groups = [(''disc'', take m1 s), (''track_num'', take m3 (drop m2 (drop m1 s))),
                      (''title'', take m5 (drop m4 (drop m3 (drop m2 (drop m1 s)))))]"
    using g g1 g3 g5 by simp
  show ?thesis
    apply (rule exI[of _ "take m1 s"])
    apply (rule exI[of _ "take m2 (drop m1 s)"])
    apply (rule exI[of _ "take m3 (drop m2 (drop m1 s))"])
    apply (rule exI[of _ "take m4 (drop m3 (drop m2 (drop m1 s)))"])
    apply (rule exI[of _ "take m5 (drop m4 (drop m3 (drop m2 (drop m1 s))))"])
    apply (rule exI[of _ "drop m5 (drop m4 (drop m3 (drop m2 (drop m1 s))))"])
    apply (intro conjI)
    apply (rule split gs c1 c2 c3 c4 c5 e)+
    done
qed

text \<open>
  Claim C5. When the file name (the stem of the path) matches the first pattern, it is a
  run of digits, a run of the separators \<^verbatim>\<open>.-_:\<close>, a run of digits, a run of white space
  and a text without a newline (then the end of the name, or one final newline), and
  \<^const>\<open>guess_fields\<close> returns exactly: \<^verbatim>\<open>disc\<close> the first run of digits, \<^verbatim>\<open>track_num\<close> the
  second, \<^verbatim>\<open>title\<close> the captured text (in place of the file name) and \<^verbatim>\<open>album_title\<close> the
  name of the parent directory. The patterns are tried in order and the first match ends
  the loop: whatever patterns follow a matching one, the result is the same.
\<close>

theorem guess_fields_pattern1:
  assumes "re_match (PATTERNS ! 0) (stem p) = Some groups"
  shows "\<exists>d sp n ws t e.
           stem p = d @ sp @ n @ ws @ t @ e \<and>
           d \<noteq> [] \<and> list_all is_digit d \<and> sp \<noteq> [] \<and> list_all is_sep sp \<and>
           n \<noteq> [] \<and> list_all is_digit n \<and> ws \<noteq> [] \<and> list_all is_space ws \<and>
           t \<noteq> [] \<and> list_all is_dot t \<and> (e = [] \<or> e = [CHR 0x0A]) \<and>
           groups = [(''disc'', d), (''track_num'', n), (''title'', t)] \<and>
           guess_fields p =
             [''album_title'' \<mapsto> parent_name p, ''disc'' \<mapsto> d, ''track_num'' \<mapsto> n,
              ''title'' \<mapsto> t] \<and>
           (\<forall>rest flds. first_match (PATTERNS ! 0 # rest) (stem p) flds =
                          first_match [PATTERNS ! 0] (stem p) flds)"
proof -
  from re_match_pattern1D[OF assms] obtain d sp n ws t e where
    shape: "stem p = d @ sp @ n @ ws @ t @ e"
      "d \<noteq> []" "list_all is_digit d" "sp \<noteq> []" "list_all is_sep sp"
      "n \<noteq> []" "list_all is_digit n" "ws \<noteq> []" "list_all is_space ws"
      "t \<noteq> []" "list_all is_dot t" "e = [] \<or> e = [CHR 0x0A]" and
    g: "groups = [(''disc'', d), (''track_num'', n), (''title'', t)]"
    by blast
  have gf: "guess_fields p =
      [''album_title'' \<mapsto> parent_name p, ''disc'' \<mapsto> d, ''track_num'' \<mapsto> n, ''title'' \<mapsto> t]"
    using assms g by (auto simp: guess_fields_def PATTERNS_def Let_def)
  have first: "\<forall>rest flds. first_match (PATTERNS ! 0 # rest) (stem p) flds =
                          first_match [PATTERNS ! 0] (stem p) flds"
    using assms by simp
  from shape g gf first show ?thesis by blast
qed

lemmas hook_evals = GUESS_TAGS_def NULL_TRACK_FIELDS_def NULL_ALBUM_FIELDS_def
  fixup_track_key_def fixup_album_key_def getitem_def py_int_def digit_val_def is_digit_def
  Let_def

lemmas re_evals = re_match_def PATTERNS_def run_def is_digit_def is_sep_def is_space_def
  is_dot_def

theorem guess_fields_pattern1_witness:
  "re_match (PATTERNS ! 0) (stem \<lparr>stem = ''01-02 My Track Name'', parent_name = ''Album''\<rparr>) =
     Some [(''disc'', ''01''), (''track_num'', ''02''), (''title'', ''My Track Name'')] \<and>
   guess_fields \<lparr>stem = ''01-02 My Track Name'', parent_name = ''Album''\<rparr> =
     [''album_title'' \<mapsto> ''Album'', ''disc'' \<mapsto> ''01'', ''track_num'' \<mapsto> ''02'',
      ''title'' \<mapsto> ''My Track Name'']"
proof -
  have m: "re_match (PATTERNS ! 0) (stem \<lparr>stem = ''01-02 My Track Name'', parent_name = ''Album''\<rparr>) =
     Some [(''disc'', ''01''), (''track_num'', ''02''), (''title'', ''My Track Name'')]"
    by (simp add: re_evals)
  from guess_fields_pattern1[OF m] show ?thesis
    using m by auto
qed

text \<open>
  Claim C6. When the file name matches none of the patterns, \<^const>\<open>guess_fields\<close> returns
  the mapping with exactly the two keys \<^verbatim>\<open>title\<close>, the file name, and \<^verbatim>\<open>album_title\<close>, the
  name of the parent directory; it has no \<^verbatim>\<open>track_num\<close> and no \<^verbatim>\<open>disc\<close>.
\<close>

theorem guess_fields_no_match:
  assumes "\<forall>pattern \<in> set PATTERNS. re_match pattern (stem p) = None"
  shows "guess_fields p = [''title'' \<mapsto> stem p, ''album_title'' \<mapsto> parent_name p] \<and>
         dom (guess_fields p) = {''title'', ''album_title''} \<and>
         guess_fields p ''track_num'' = None \<and> guess_fields p ''disc'' = None"
  using assms by (auto simp: guess_fields_def PATTERNS_def Let_def)

theorem guess_fields_no_match_witness:
  "re_match (PATTERNS ! 0) ''Song'' = None \<and> re_match (PATTERNS ! Suc 0) ''Song'' = None \<and>
   guess_fields \<lparr>stem = ''Song'', parent_name = ''My Album''\<rparr> =
     [''title'' \<mapsto> ''Song'', ''album_title'' \<mapsto> ''My Album''] \<and>
   guess_fields \<lparr>stem = ''Song'', parent_name = ''My Album''\<rparr> ''track_num'' = None"
proof -
  have a: "re_match (PATTERNS ! 0) ''Song'' = None" by (simp add: re_evals)
  have b: "re_match (PATTERNS ! Suc 0) ''Song'' = None" by (simp add: re_evals)
  have "\<forall>pattern \<in> set PATTERNS.
          re_match pattern (stem \<lparr>stem = ''Song'', parent_name = ''My Album''\<rparr>) = None"
    using a b by (simp add: PATTERNS_def)
  from guess_fields_no_match[OF this] a b show ?thesis by simp
qed

section \<open>The fix-up passes of the read hook\<close>

lemma fixup_track_key_keep:
  "fixup_track_key g kv d = Inr d' \<Longrightarrow>
     d' k = d k \<or> (k = fst kv \<and> (\<exists>v. d k = Some v \<and> \<not> truthy v))"
  by (auto simp: fixup_track_key_def getitem_def
           split: prod.splits option.splits sum.splits val.splits if_splits)

lemma fixup_album_key_keep:
  "fixup_album_key g kv d = Inr d' \<Longrightarrow>
     d' k = d k \<or> (k = fst kv \<and> (\<exists>v. d k = Some v \<and> \<not> truthy v))"
  by (auto simp: fixup_album_key_def getitem_def Let_def
           split: prod.splits option.splits sum.splits if_splits)

lemma for_keys_keep:
  assumes "for_keys body ks d = Inr d'"
    and "\<And>kv d d'. body kv d = Inr d' \<Longrightarrow>
           d' k = d k \<or> (k = fst kv \<and> (\<exists>v. d k = Some v \<and> \<not> truthy v))"
  shows "d' k = d k \<or> (k \<in> fst ` set ks \<and> (\<exists>v. d k = Some v \<and> \<not> truthy v))"
  using assms(1)
proof (induction ks arbitrary: d)
  case Nil
  then show ?case by simp
next
  case (Cons kv ks)
  from Cons.prems obtain d1 where b: "body kv d = Inr d1" and r: "for_keys body ks d1 = Inr d'"
    by (auto split: sum.splits)
  from assms(2)[OF b] Cons.IH[OF r] show ?case by auto
qed

lemma reconcileD:
  assumes "reconcile p af tf = Inr (af', tf')"
  shows "for_keys (fixup_track_key (guess_fields p)) NULL_TRACK_FIELDS tf = Inr tf' \<and>
         for_keys (fixup_album_key (guess_fields p)) NULL_ALBUM_FIELDS af = Inr af'"
  using assms by (auto simp: reconcile_def GUESS_TAGS_def Let_def split: sum.splits)

text \<open>
  Claim C3. The two fix-up passes write blank fields only: a field of the track or of the
  album field set whose incoming value is true in Python's sense keeps its value, whatever
  \<^const>\<open>guess_fields\<close> found for it; and a field whose value differs after the passes is a
  field of the null-field table whose incoming value was blank.
\<close>

theorem reconcile_fills_blanks_only:
  assumes "reconcile p af tf = Inr (af', tf')"
  shows "(\<forall>k v. tf k = Some v \<and> truthy v \<longrightarrow> tf' k = Some v) \<and>
         (\<forall>k v. af k = Some v \<and> truthy v \<longrightarrow> af' k = Some v) \<and>
         (\<forall>k. tf' k \<noteq> tf k \<longrightarrow>
               k \<in> fst ` set NULL_TRACK_FIELDS \<and> (\<exists>v. tf k = Some v \<and> \<not> truthy v)) \<and>
         (\<forall>k. af' k \<noteq> af k \<longrightarrow>
               k \<in> fst ` set NULL_ALBUM_FIELDS \<and> (\<exists>v. af k = Some v \<and> \<not> truthy v))"
proof -
  from reconcileD[OF assms] have
    t: "for_keys (fixup_track_key (guess_fields p)) NULL_TRACK_FIELDS tf = Inr tf'" and
    a: "for_keys (fixup_album_key (guess_fields p)) NULL_ALBUM_FIELDS af = Inr af'"
    by simp_all
  have tk: "tf' k = tf k \<or>
      (k \<in> fst ` set NULL_TRACK_FIELDS \<and> (\<exists>v. tf k = Some v \<and> \<not> truthy v))" for k
    by (rule for_keys_keep[OF t]) (rule fixup_track_key_keep)
  have ak: "af' k = af k \<or>
      (k \<in> fst ` set NULL_ALBUM_FIELDS \<and> (\<exists>v. af k = Some v \<and> \<not> truthy v))" for k
    by (rule for_keys_keep[OF a]) (rule fixup_album_key_keep)
  show ?thesis
    using tk ak by (metis option.inject)
qed

lemma fixup_track_key_blank_int:
  assumes "d key = Some v" and "\<not> truthy v"
    and "fixup_track_key g (key, VInt s) d = Inr d'"
  shows "(case g key of
            Some gs \<Rightarrow> \<exists>i. py_int gs = Inr i \<and> d' key = Some (VInt i)
          | None \<Rightarrow> d' key = Some (VInt s))"
  using assms
  by (cases "g key")
     (auto simp: fixup_track_key_def getitem_def GUESS_TAGS_def domIff split: sum.splits)

lemma reconcile_track_num_blank:
  assumes "tf ''track_num'' = Some v" and "\<not> truthy v"
    and "reconcile p af tf = Inr (af', tf')"
  shows "(case guess_fields p ''track_num'' of
            Some g \<Rightarrow> \<exists>i. py_int g = Inr i \<and> tf' ''track_num'' = Some (VInt i)
          | None \<Rightarrow> tf' ''track_num'' = Some (VInt (- 1)))"
proof -
  let ?g = "guess_fields p"
  from reconcileD[OF assms(3)] have
    "for_keys (fixup_track_key ?g) NULL_TRACK_FIELDS tf = Inr tf'" by simp
  then obtain d1 d2 where
    s1: "fixup_track_key ?g (''title'', VStr ''<Unknown Track>'') tf = Inr d1" and
    s2: "fixup_track_key ?g (''track_num'', VInt (- 1)) d1 = Inr d2" and
    s3: "fixup_track_key ?g (''disc'', VInt 1) d2 = Inr tf'"
    by (auto simp: NULL_TRACK_FIELDS_def split: sum.splits)
  from fixup_track_key_keep[OF s1, of "''track_num''"] have
    d1: "d1 ''track_num'' = tf ''track_num''" by simp
  from fixup_track_key_keep[OF s3, of "''track_num''"] have
    d3: "tf' ''track_num'' = d2 ''track_num''" by simp
  from d1 assms(1) have "d1 ''track_num'' = Some v" by simp
  from fixup_track_key_blank_int[OF this assms(2) s2] d3 show ?thesis
    by (auto split: option.splits)
qed

theorem reconcile_fills_blanks_only_witness:
  "\<exists>af' tf'.
     reconcile \<lparr>stem = ''01-02 Song'', parent_name = ''Unknown Artist''\<rparr>
       [''title'' \<mapsto> VNone, ''artist'' \<mapsto> VNone, ''date'' \<mapsto> VNone, ''disc_total'' \<mapsto> VNone]
       [''title'' \<mapsto> VStr ''Real Title'', ''track_num'' \<mapsto> VNone, ''disc'' \<mapsto> VNone]
       = Inr (af', tf') \<and>
     tf' ''title'' = Some (VStr ''Real Title'') \<and>
     guess_fields \<lparr>stem = ''01-02 Song'', parent_name = ''Unknown Artist''\<rparr> ''title'' =
       Some ''Song''"
proof -
  let ?p = "\<lparr>stem = ''01-02 Song'', parent_name = ''Unknown Artist''\<rparr>"
  let ?af = "[''title'' \<mapsto> VNone, ''artist'' \<mapsto> VNone, ''date'' \<mapsto> VNone,
              ''disc_total'' \<mapsto> VNone]"
  let ?tf = "[''title'' \<mapsto> VStr ''Real Title'', ''track_num'' \<mapsto> VNone, ''disc'' \<mapsto> VNone]"
  have gf: "guess_fields ?p =
      [''title'' \<mapsto> ''01-02 Song'', ''album_title'' \<mapsto> ''Unknown Artist'',
       ''disc'' \<mapsto> ''01'', ''track_num'' \<mapsto> ''02'', ''title'' \<mapsto> ''Song'']"
    by (simp add: guess_fields_def re_evals Let_def)
  have "\<exists>af' tf'. reconcile ?p ?af ?tf = Inr (af', tf')"
    by (simp add: reconcile_def gf hook_evals)
  then obtain af' tf' where r: "reconcile ?p ?af ?tf = Inr (af', tf')" by blast
  from reconcile_fills_blanks_only[OF r] have "tf' ''title'' = Some (VStr ''Real Title'')"
    by simp
  with r gf show ?thesis by simp
qed

section \<open>The sequential negative track numbers\<close>

lemma read_step:
  assumes "reconciled (p, af, tf) = Some (album, n)"
  shows "\<exists>af' tf' st'. read_custom_tags p af tf st = Inr (af', tf', st') \<and>
           tf' ''track_num'' =
             Some (if n = VInt (- 1) then VInt (- (count_for album st + 1)) else n) \<and>
           count_for album st' = count_for album st + (if n = VInt (- 1) then 1 else 0)"
proof -
  from assms obtain af1 tf1 where r: "reconcile p af tf = Inr (af1, tf1)"
    and a: "af1 ''title'' = Some album" and t: "tf1 ''track_num'' = Some n"
    by (auto simp: reconciled_def split: sum.splits option.splits)
  show ?thesis
    using r a t
    by (auto simp: read_custom_tags_def disambiguate_def getitem_def NULL_TRACK_FIELDS_def
                   count_for_def Let_def)
qed

lemma read_serially_numbering:
  assumes "\<forall>c\<in>set calls. \<exists>n. reconciled c = Some (album, n)"
  shows "\<exists>outs st'. read_serially calls st = Inr (outs, st') \<and> length outs = length calls \<and>
           (\<forall>i<length calls. snd (outs ! i) ''track_num'' =
              Some (if reconciled (calls ! i) = Some (album, VInt (- 1))
                    then VInt (- (count_for album st +
                           int (length (filter (\<lambda>c. reconciled c = Some (album, VInt (- 1)))
                                          (take (Suc i) calls)))))
                    else snd (the (reconciled (calls ! i)))))"
  using assms
proof (induction calls arbitrary: st)
  case Nil
  show ?case by simp
next
  case (Cons c calls)
  let ?S = "\<lambda>c. reconciled c = Some (album, VInt (- 1))"
  obtain p af tf where c: "c = (p, af, tf)" by (cases c)
  from Cons.prems obtain n where n: "reconciled c = Some (album, n)" by auto
  from read_step[OF n[unfolded c], of st] obtain af1 tf1 st1 where
    step: "read_custom_tags p af tf st = Inr (af1, tf1, st1)" and
    tn: "tf1 ''track_num'' =
           Some (if n = VInt (- 1) then VInt (- (count_for album st + 1)) else n)" and
    cnt: "count_for album st1 = count_for album st + (if n = VInt (- 1) then 1 else 0)"
    by blast
  from Cons.prems have "\<forall>c\<in>set calls. \<exists>n. reconciled c = Some (album, n)" by simp
  from Cons.IH[OF this, of st1] obtain outs st' where
    rs: "read_serially calls st1 = Inr (outs, st')" and
    len: "length outs = length calls" and
    nth: "\<forall>i<length calls. snd (outs ! i) ''track_num'' =
              Some (if ?S (calls ! i)
                    then VInt (- (count_for album st1 +
                           int (length (filter ?S (take (Suc i) calls)))))
                    else snd (the (reconciled (calls ! i))))"
    by blast
  have run: "read_serially (c # calls) st = Inr ((af1, tf1) # outs, st')"
    using step rs by (simp add: c)
  have "snd (((af1, tf1) # outs) ! i) ''track_num'' =
              Some (if ?S ((c # calls) ! i)
                    then VInt (- (count_for album st +
                           int (length (filter ?S (take (Suc i) (c # calls))))))
                    else snd (the (reconciled ((c # calls) ! i))))"
    if i: "i < length (c # calls)" for i
  proof (cases i)
    case 0
    then show ?thesis using tn n by simp
  next
    case (Suc j)
    with i have "j < length calls" by simp
    from nth[rule_format, OF this] show ?thesis
      using Suc cnt n by simp
  qed
  with run len show ?case by simp
qed

text \<open>
  Claim C1. Take calls of the read hook, one after the other, that all reconcile to the
  same album title, from a state whose last album is another one (whatever its counter)
  or whose counter is 0. Every call completes, and the calls whose reconciled \<^verbatim>\<open>track_num\<close>
  is the sentinel \<open>-1\<close> get \<open>-1\<close>, \<open>-2\<close>, ... in the order of the calls: the \<open>k\<close>-th of them gets
  \<open>-k\<close>. The other calls keep their reconciled track number.
\<close>

theorem disambiguator_numbers_in_order:
  assumes "\<forall>c\<in>set calls. \<exists>n. reconciled c = Some (album, n)"
    and "last_added_album st \<noteq> album \<or> null_track_num_count st = 0"
  shows "\<exists>outs st'. read_serially calls st = Inr (outs, st') \<and> length outs = length calls \<and>
           (\<forall>i<length calls. snd (outs ! i) ''track_num'' =
              Some (if reconciled (calls ! i) = Some (album, VInt (- 1))
                    then VInt (- int (length (filter (\<lambda>c. reconciled c = Some (album, VInt (- 1)))
                                               (take (Suc i) calls))))
                    else snd (the (reconciled (calls ! i)))))"
proof -
  from assms(2) have z: "count_for album st = 0" by (auto simp: count_for_def)
  note numbering = read_serially_numbering[OF assms(1), of st, unfolded z add_0_left]
  show ?thesis by (rule numbering)
qed

theorem disambiguator_numbers_in_order_witness:
  "\<exists>outs st'.
     read_serially
       [(\<lparr>stem = ''Song A'', parent_name = ''My Album''\<rparr>,
         [''title'' \<mapsto> VNone, ''artist'' \<mapsto> VNone, ''date'' \<mapsto> VNone, ''disc_total'' \<mapsto> VNone],
         [''title'' \<mapsto> VNone, ''track_num'' \<mapsto> VNone, ''disc'' \<mapsto> VNone]),
        (\<lparr>stem = ''02 Song B'', parent_name = ''My Album''\<rparr>,
         [''title'' \<mapsto> VNone, ''artist'' \<mapsto> VNone, ''date'' \<mapsto> VNone, ''disc_total'' \<mapsto> VNone],
         [''title'' \<mapsto> VNone, ''track_num'' \<mapsto> VNone, ''disc'' \<mapsto> VNone]),
        (\<lparr>stem = ''Song C'', parent_name = ''My Album''\<rparr>,
         [''title'' \<mapsto> VNone, ''artist'' \<mapsto> VNone, ''date'' \<mapsto> VNone, ''disc_total'' \<mapsto> VNone],
         [''title'' \<mapsto> VNone, ''track_num'' \<mapsto> VNone, ''disc'' \<mapsto> VNone])]
       \<lparr>null_track_num_count = 5, last_added_album = VStr ''Other Album''\<rparr> = Inr (outs, st') \<and>
     snd (outs ! 0) ''track_num'' = Some (VInt (- 1)) \<and>
     snd (outs ! Suc 0) ''track_num'' = Some (VInt 2) \<and>
     snd (outs ! Suc (Suc 0)) ''track_num'' = Some (VInt (- 2))"
proof -
  let ?af = "[''title'' \<mapsto> VNone, ''artist'' \<mapsto> VNone, ''date'' \<mapsto> VNone,
              ''disc_total'' \<mapsto> VNone]"
  let ?tf = "[''title'' \<mapsto> VNone, ''track_num'' \<mapsto> VNone, ''disc'' \<mapsto> VNone]"
  let ?a = "(\<lparr>stem = ''Song A'', parent_name = ''My Album''\<rparr>, ?af, ?tf)"
  let ?b = "(\<lparr>stem = ''02 Song B'', parent_name = ''My Album''\<rparr>, ?af, ?tf)"
  let ?c = "(\<lparr>stem = ''Song C'', parent_name = ''My Album''\<rparr>, ?af, ?tf)"
  let ?st = "\<lparr>null_track_num_count = 5, last_added_album = VStr ''Other Album''\<rparr>"
  have ga: "guess_fields \<lparr>stem = ''Song A'', parent_name = ''My Album''\<rparr> =
      [''title'' \<mapsto> ''Song A'', ''album_title'' \<mapsto> ''My Album'']"
    by (simp add: guess_fields_def re_evals Let_def)
  have gb: "guess_fields \<lparr>stem = ''02 Song B'', parent_name = ''My Album''\<rparr> =
      [''title'' \<mapsto> ''02 Song B'', ''album_title'' \<mapsto> ''My Album'',
       ''track_num'' \<mapsto> ''02'', ''title'' \<mapsto> ''Song B'']"
    by (simp add: guess_fields_def re_evals Let_def)
  have gc: "guess_fields \<lparr>stem = ''Song C'', parent_name = ''My Album''\<rparr> =
      [''title'' \<mapsto> ''Song C'', ''album_title'' \<mapsto> ''My Album'']"
    by (simp add: guess_fields_def re_evals Let_def)
  have ra: "reconciled ?a = Some (VStr ''My Album'', VInt (- 1))"
    by (simp add: reconciled_def reconcile_def ga hook_evals)
  have rb: "reconciled ?b = Some (VStr ''My Album'', VInt 2)"
    by (simp add: reconciled_def reconcile_def gb hook_evals)
  have rc: "reconciled ?c = Some (VStr ''My Album'', VInt (- 1))"
    by (simp add: reconciled_def reconcile_def gc hook_evals)
  have pre: "\<forall>c\<in>set [?a, ?b, ?c]. \<exists>n. reconciled c = Some (VStr ''My Album'', n)"
    using ra rb rc by simp
  have st: "last_added_album ?st \<noteq> VStr ''My Album'' \<or> null_track_num_count ?st = 0"
    by simp
  from disambiguator_numbers_in_order[OF pre st] obtain outs st' where
    run: "read_serially [?a, ?b, ?c] ?st = Inr (outs, st')" and
    nth: "\<forall>i<length [?a, ?b, ?c]. snd (outs ! i) ''track_num'' =
              Some (if reconciled ([?a, ?b, ?c] ! i) = Some (VStr ''My Album'', VInt (- 1))
                    then VInt (- int (length (filter
                           (\<lambda>c. reconciled c = Some (VStr ''My Album'', VInt (- 1)))
                           (take (Suc i) [?a, ?b, ?c]))))
                    else snd (the (reconciled ([?a, ?b, ?c] ! i))))"
    by blast
  from nth[rule_format, of 0] have o0: "snd (outs ! 0) ''track_num'' = Some (VInt (- 1))"
    by (simp add: ra)
  from nth[rule_format, of "Suc 0"] have o1: "snd (outs ! Suc 0) ''track_num'' = Some (VInt 2)"
    by (simp add: ra rb)
  from nth[rule_format, of "Suc (Suc 0)"] have
    o2: "snd (outs ! Suc (Suc 0)) ''track_num'' = Some (VInt (- 2))"
    by (simp add: ra rb rc)
  from run o0 o1 o2 show ?thesis by blast
qed

section \<open>A track number that is false\<close>

text \<open>
  Claim C10 at the file name \<^verbatim>\<open>00 Intro\<close> with the track number 0 in the tags: the 0 is
  blank for the hook, the guess for \<^verbatim>\<open>track_num\<close> is \<^verbatim>\<open>00\<close>, its integer value 0 is stored
  without a test, and the read hook completes with the track number 0, as it came in.
\<close>

theorem zero_track_num_survives:
  "\<exists>af' tf' st'.
     read_custom_tags \<lparr>stem = ''00 Intro'', parent_name = ''My Album''\<rparr>
       [''title'' \<mapsto> VStr ''My Album'', ''artist'' \<mapsto> VStr ''Someone'',
        ''date'' \<mapsto> VDate (Date 2020 1 1), ''disc_total'' \<mapsto> VInt 1]
       [''title'' \<mapsto> VStr ''Intro'', ''track_num'' \<mapsto> VInt 0, ''disc'' \<mapsto> VInt 1]
       init_state = Inr (af', tf', st') \<and>
     tf' ''track_num'' = Some (VInt 0)"
proof -
  have gf: "guess_fields \<lparr>stem = ''00 Intro'', parent_name = ''My Album''\<rparr> =
      [''title'' \<mapsto> ''00 Intro'', ''album_title'' \<mapsto> ''My Album'',
       ''track_num'' \<mapsto> ''00'', ''title'' \<mapsto> ''Intro'']"
    by (simp add: guess_fields_def re_evals Let_def)
  show ?thesis
    by (simp add: read_custom_tags_def reconcile_def disambiguate_def init_state_def gf
                  hook_evals)
qed

text \<open>
  Claim C2 at the file name \<^verbatim>\<open>00 Intro\<close> with no tag at all: the read hook completes and
  the track number it leaves is 0, the guess, which is blank in Python's sense.
\<close>

theorem blank_track_num_stays_blank:
  "\<exists>af' tf' st'.
     read_custom_tags \<lparr>stem = ''00 Intro'', parent_name = ''My Album''\<rparr>
       [''title'' \<mapsto> VNone, ''artist'' \<mapsto> VNone, ''date'' \<mapsto> VNone, ''disc_total'' \<mapsto> VNone]
       [''title'' \<mapsto> VNone, ''track_num'' \<mapsto> VNone, ''disc'' \<mapsto> VNone]
       init_state = Inr (af', tf', st') \<and>
     tf' ''track_num'' = Some (VInt 0) \<and> \<not> truthy (VInt 0)"
proof -
  have gf: "guess_fields \<lparr>stem = ''00 Intro'', parent_name = ''My Album''\<rparr> =
      [''title'' \<mapsto> ''00 Intro'', ''album_title'' \<mapsto> ''My Album'',
       ''track_num'' \<mapsto> ''00'', ''title'' \<mapsto> ''Intro'']"
    by (simp add: guess_fields_def re_evals Let_def)
  show ?thesis
    by (simp add: read_custom_tags_def reconcile_def disambiguate_def init_state_def gf
                  hook_evals)
qed

section \<open>The pre-persist hooks\<close>

lemma process_changed_items_new:
  "process_changed_items items h = process_new_items items h"
  by (induction items arbitrary: h) simp_all

lemma process_new_items_apply:
  "process_new_items items h a =
     (if a \<in> set items
      then (case h a of
              Track t \<Rightarrow> Track (t\<lparr>track_num := (if track_num t < 0 then 0 else track_num t)\<rparr>)
            | Other x \<Rightarrow> Other x)
      else h a)"
  by (induction items arbitrary: h) (auto split: lib_item.splits)

text \<open>
  Claim C7. The pre-persist normalizer is idempotent: running \<^const>\<open>process_new_items\<close>
  twice on a list of items leaves the store as one run does, and so does running
  \<^const>\<open>process_changed_items\<close> twice. One run of either hook changes nothing but the
  \<^const>\<open>track_num\<close> of tracks: a track named in the list with a negative number gets 0,
  every other number (0 included) stays, every other attribute of a track stays, and an
  item that is not a track stays as it is.
\<close>

theorem sentinel_normalizer_idempotent:
  "process_new_items items (process_new_items items h) = process_new_items items h \<and>
   process_changed_items items (process_changed_items items h) = process_changed_items items h \<and>
   (\<forall>a. case h a of
          Track t \<Rightarrow>
            process_new_items items h a =
              Track (t\<lparr>track_num := (if a \<in> set items \<and> track_num t < 0 then 0 else track_num t)\<rparr>) \<and>
            process_changed_items items h a =
              Track (t\<lparr>track_num := (if a \<in> set items \<and> track_num t < 0 then 0 else track_num t)\<rparr>)
        | Other x \<Rightarrow>
            process_new_items items h a = Other x \<and> process_changed_items items h a = Other x)"
proof -
  have idem_new:
    "process_new_items items (process_new_items items h) = process_new_items items h"
    by (rule ext) (auto simp: process_new_items_apply split: lib_item.splits)
  have idem_changed:
    "process_changed_items items (process_changed_items items h) = process_changed_items items h"
    using idem_new by (simp only: process_changed_items_new)
  have frame: "\<forall>a. case h a of
          Track t \<Rightarrow>
            process_new_items items h a =
              Track (t\<lparr>track_num := (if a \<in> set items \<and> track_num t < 0 then 0 else track_num t)\<rparr>) \<and>
            process_changed_items items h a =
              Track (t\<lparr>track_num := (if a \<in> set items \<and> track_num t < 0 then 0 else track_num t)\<rparr>)
        | Other x \<Rightarrow>
            process_new_items items h a = Other x \<and> process_changed_items items h a = Other x"
    by (auto simp: process_changed_items_new process_new_items_apply split: lib_item.splits)
  show ?thesis
    by (intro conjI) (rule idem_new, rule idem_changed, rule frame)
qed

text \<open>
  Claim C8. The two pre-persist hooks are the same function: on every list of items and
  every store, \<^const>\<open>process_new_items\<close> and \<^const>\<open>process_changed_items\<close> give the same
  store.
\<close>

theorem hooks_extensionally_equal:
  "process_new_items items h = process_changed_items items h"
  by (simp add: process_changed_items_new)

section \<open>The write hook\<close>

text \<open>
  Claim C4. When the hook builds its dictionary of tags to delete, the key \<^verbatim>\<open>track\<close> is in
  it exactly when the item's \<^const>\<open>track_num\<close> is at most 0 or the file's track value is at
  most 0, the key \<^verbatim>\<open>date\<close> exactly when the file's date is the sentinel date, there is no
  other key, and every value is \<^verbatim>\<open>None\<close>. The only case where no dictionary is built is
  the comparison of a missing track value, with a positive \<^const>\<open>track_num\<close>.
\<close>

theorem tag_eraser_marks:
  "(case null_tags t f of
      Inl e \<Rightarrow> e = TypeError \<and> 0 < track_num t \<and> track f = None
    | Inr nullTags \<Rightarrow>
        (''track'' \<in> dom nullTags \<longleftrightarrow> track_num t \<le> 0 \<or> (\<exists>d. track f = Some d \<and> d \<le> 0)) \<and>
        (''date'' \<in> dom nullTags \<longleftrightarrow> date f = Some date_min) \<and>
        dom nullTags \<subseteq> {''track'', ''date''} \<and>
        ran nullTags \<subseteq> {VNone})"
  by (cases "track f") (auto simp: null_tags_def Let_def ran_def split: if_splits)

text \<open>
  Claim C9. The write hook raises exactly when the item's \<^const>\<open>track_num\<close> is positive and
  the file has no track tag: then \<^verbatim>\<open>audio_file.track <= 0\<close> is evaluated on \<^verbatim>\<open>None\<close> and is a
  \<^verbatim>\<open>TypeError\<close>. With a \<^const>\<open>track_num\<close> of at most 0, or a numeric track value in the file,
  the hook completes.
\<close>

theorem write_guard_raises:
  "((\<exists>e. write_custom_tags t files = Inl e) \<longleftrightarrow>
      0 < track_num t \<and> track (files (path t)) = None) \<and>
   ((write_custom_tags t files = Inl TypeError) \<longleftrightarrow>
      0 < track_num t \<and> track (files (path t)) = None)"
  by (cases "track (files (path t))") (auto simp: write_custom_tags_def null_tags_def Let_def)

end
